theory Spec2Isabelle
  imports Main "HOL-Library.Word" "HOL-Library.Char_ord" "HOL-Library.List_Lexorder"
    "HOL-Library.Multiset"
begin

section \<open>The event subsystem (internal/subsystem/event.go)\<close>

subsection \<open>Data model\<close>

text \<open>
  Go values that the subsystem only passes around are kept abstract: a callback
  (\<open>func(...interface{})\<close>) is an identifier, a channel is an identifier, and the
  \<open>interface{}\<close> values of an event's data are a small universe of values.
\<close>

type_synonym func = nat
type_synonym chan = nat
type_synonym addr = nat

datatype iface = IInt int | IString string | IBool bool | INil

text \<open>
  \<open>eventListener\<close>: the struct of lines 16-20. The counter is an \<open>int64\<close>.
\<close>

record eventListener =
  callback :: func
  counter :: "64 word"
  delete :: bool

text \<open>
  A Go slice of listener pointers is either \<open>nil\<close> or a sequence of addresses. Indexing
  a map at a missing key yields the zero value, the \<open>nil\<close> slice.
\<close>

datatype slice = NilSlice | Slice "addr list"

fun elems :: "slice \<Rightarrow> addr list" where
  "elems NilSlice = []"
| "elems (Slice as) = as"

text \<open>\<open>append(s, a)\<close> on a slice: the result is never \<open>nil\<close>.\<close>

fun append_slice :: "slice \<Rightarrow> addr \<Rightarrow> slice" where
  "append_slice s a = Slice (elems s @ [a])"

text \<open>The payloads of \<open>internal/messagedispatcher/message\<close> that the subsystem reads.\<close>

record EventMessage =
  Name :: string
  Data :: "iface list"

record OnEventMessage =
  OnName :: string
  Callback :: func

datatype payload = EventData EventMessage | OnData OnEventMessage | OtherData

text \<open>A \<open>servicebus.Message\<close>: a topic and its data.\<close>

record Message =
  Topic :: string
  MsgData :: payload

text \<open>
  What a \<open>go\<close> statement launches: a listener's callback applied to the event data
  (line 160), or a notification of the listeners of an event name (lines 110, 114).
\<close>

datatype task = CallbackTask func "iface list" | NotifyTask string EventMessage

datatype logentry = LogTrace string | LogError string

text \<open>
  \<open>Event\<close>: the struct of lines 24-35, together with the part of the Go runtime that its
  methods act on. The listeners are held by pointer, so the records live in a store
  (\<open>heap\<close>) and the map holds addresses; \<open>next_addr\<close> is the next address that an
  allocation returns. \<open>spawned\<close> lists the goroutines launched so far, in launch order;
  \<open>logger\<close> the entries written to the custom logger (the format strings);
  \<open>console\<close> the lines written by \<open>println\<close>.
\<close>

record Event =
  quitChannel :: chan
  eventChannel :: chan
  running :: bool
  listeners :: "string \<rightharpoonup> slice"
  notifyLock :: bool
  logger :: "logentry list"
  heap :: "addr \<Rightarrow> eventListener"
  next_addr :: addr
  spawned :: "task list"
  console :: "string list"

text \<open>\<open>e.listeners[eventName]\<close>: the zero value (\<open>nil\<close>) when the key is missing.\<close>

definition index_listeners :: "Event \<Rightarrow> string \<Rightarrow> slice" where
  "index_listeners e eventName =
     (case listeners e eventName of None \<Rightarrow> NilSlice | Some s \<Rightarrow> s)"

subsection \<open>NewEvent\<close>

text \<open>
  \<open>bus.Subscribe\<close> belongs to the service bus (\<open>internal/servicebus\<close>), another
  package. It is a parameter here: a function from the bus state and a topic to either an error or a
  channel, together with the bus state after the call.
\<close>

type_synonym error = string

type_synonym 'bus subscribe = "'bus \<Rightarrow> string \<Rightarrow> (error + chan) \<times> 'bus"

definition empty_heap :: "addr \<Rightarrow> eventListener" where
  "empty_heap = (\<lambda>_. \<lparr>callback = 0, counter = 0, delete = False\<rparr>)"

definition NewEvent :: "'bus subscribe \<Rightarrow> 'bus \<Rightarrow> (error + Event) \<times> 'bus" where
  "NewEvent Subscribe bus =
     (case Subscribe bus ''quit'' of
        (Inl err, bus1) \<Rightarrow> (Inl err, bus1)
      | (Inr quitCh, bus1) \<Rightarrow>
          (case Subscribe bus1 ''event'' of
             (Inl err, bus2) \<Rightarrow> (Inl err, bus2)
           | (Inr eventCh, bus2) \<Rightarrow>
               (Inr \<lparr>quitChannel = quitCh, eventChannel = eventCh, running = False,
                     listeners = Map.empty, notifyLock = False, logger = [],
                     heap = empty_heap, next_addr = 0, spawned = [], console = []\<rparr>,
                bus2)))"

subsection \<open>RegisterListener\<close>

text \<open>
  Lines 63-76. \<open>&eventListener{...}\<close> allocates a fresh record; the new address is
  appended to the slice stored under the event name. The mutex is taken and released
  around the append, so a call that runs on its own leaves it as it was.
\<close>

definition RegisterListener :: "Event \<Rightarrow> string \<Rightarrow> func \<Rightarrow> Event" where
  "RegisterListener e eventName cb =
     (let thisListener = next_addr e;
          e1 = e\<lparr>heap := (heap e)(thisListener := \<lparr>callback = cb, counter = 0, delete = False\<rparr>),
                 next_addr := Suc (next_addr e)\<rparr>
      in e1\<lparr>listeners := (listeners e1)(eventName \<mapsto>
                append_slice (index_listeners e1 eventName) thisListener)\<rparr>)"

subsection \<open>notifyListeners\<close>

text \<open>
  The first loop, lines 155-166, over the snapshot \<open>listeners\<close>. It carries the store,
  the goroutines launched and the flag \<open>itemsToDelete\<close>. \<open>notify_one\<close> is the loop
  body for the record at address \<open>a\<close>: the counter is decremented when positive (as a
  signed 64-bit value), the callback is launched with the message's data, and a counter
  that is zero afterwards marks the record.
\<close>

type_synonym loop_state = "(addr \<Rightarrow> eventListener) \<times> task list \<times> bool"

fun notify_one :: "addr \<Rightarrow> iface list \<Rightarrow> loop_state \<Rightarrow> loop_state" where
  "notify_one a d (h, ts, itemsToDelete) =
     (let l1 = (if 0 < sint (counter (h a)) then (h a)\<lparr>counter := counter (h a) - 1\<rparr> else h a);
          ts1 = ts @ [CallbackTask (callback l1) d]
      in if counter l1 = 0
         then (h(a := l1\<lparr>delete := True\<rparr>), ts1, True)
         else (h(a := l1), ts1, itemsToDelete))"

fun notify_loop :: "addr list \<Rightarrow> iface list \<Rightarrow> loop_state \<Rightarrow> loop_state" where
  "notify_loop [] d st = st"
| "notify_loop (a # as) d st = notify_loop as d (notify_one a d st)"

text \<open>
  The second loop, lines 172-180: the new slice starts as the empty, non-\<open>nil\<close> slice
  and receives the addresses whose record is not marked.
\<close>

definition cleanup :: "(addr \<Rightarrow> eventListener) \<Rightarrow> addr list \<Rightarrow> slice" where
  "cleanup h ls = Slice (filter (\<lambda>a. \<not> delete (h a)) ls)"

text \<open>
  Lines 152-184, the part of \<open>notifyListeners\<close> that runs between \<open>Lock\<close> and
  \<open>Unlock\<close>: both loops over the snapshot \<open>ls\<close>, and the store of the rebuilt slice
  under the event name when some record was marked in this pass.
\<close>

definition notify_locked :: "Event \<Rightarrow> string \<Rightarrow> EventMessage \<Rightarrow> addr list \<Rightarrow> Event" where
  "notify_locked e eventName message ls =
     (case notify_loop ls (Data message) (heap e, spawned e, False) of
        (h, ts, itemsToDelete) \<Rightarrow>
          (let e1 = e\<lparr>heap := h, spawned := ts\<rparr>
           in if itemsToDelete
              then e1\<lparr>listeners := (listeners e1)(eventName \<mapsto> cleanup h ls)\<rparr>
              else e1))"

text \<open>
  Lines 139-189. The lookup and the \<open>nil\<close> test come first; a \<open>nil\<close> slice prints a line
  and returns. Otherwise the mutex is taken, both loops run and the mutex is released,
  so a call that runs on its own leaves the mutex as it was.
\<close>

definition notifyListeners :: "Event \<Rightarrow> string \<Rightarrow> EventMessage \<Rightarrow> Event" where
  "notifyListeners e eventName message =
     (case index_listeners e eventName of
        NilSlice \<Rightarrow> e\<lparr>console := console e @ [''no listeners for '' @ eventName]\<rparr>
      | Slice ls \<Rightarrow> notify_locked e eventName message ls)"

subsection \<open>Start and the run loop\<close>

text \<open>
  \<open>strings.Split(s, ":")\<close>: the substrings between the separators, one more than the
  number of separators, so never empty.
\<close>

fun Split :: "string \<Rightarrow> char \<Rightarrow> string list" where
  "Split [] sep = [[]]"
| "Split (c # cs) sep =
     (if c = sep then [] # Split cs sep
      else (case Split cs sep of [] \<Rightarrow> [[c]] | w # ws \<Rightarrow> (c # w) # ws))"

text \<open>
  A run-time panic of the goroutine: an index out of range (index, length) or a failed
  type assertion.
\<close>

datatype panic = IndexOutOfRange nat nat | InterfaceConversion

definition log_Trace :: "Event \<Rightarrow> string \<Rightarrow> Event" where
  "log_Trace e s = e\<lparr>logger := logger e @ [LogTrace s]\<rparr>"

definition log_Error :: "Event \<Rightarrow> string \<Rightarrow> Event" where
  "log_Error e s = e\<lparr>logger := logger e @ [LogError s]\<rparr>"

text \<open>
  Lines 93-127, the body of the \<open>select\<close> case that receives \<open>eventMessage\<close>.
  \<open>splitTopic[1]\<close> and \<open>splitTopic[3]\<close> are slice reads, which panic out of range; the
  two type assertions panic on a payload of another type. A \<open>go\<close> statement adds a
  task to \<open>spawned\<close> and does not wait for it.
\<close>

definition on_eventMessage :: "Event \<Rightarrow> Message \<Rightarrow> panic + Event" where
  "on_eventMessage e eventMessage =
     (let splitTopic = Split (Topic eventMessage) CHR '':''
      in if length splitTopic \<le> 1 then Inl (IndexOutOfRange 1 (length splitTopic))
         else
           (let eventType = splitTopic ! 1
            in if eventType = ''emit'' then
                 (if length splitTopic \<noteq> 4
                  then Inr (log_Error e
                    ''Received emit message with invalid topic format. Expected 4 sections in topic, got %s'')
                  else
                    (let eventSource = splitTopic ! 3;
                         e1 = log_Trace e ''Got Event Message: %s %+v''
                     in case MsgData eventMessage of
                          EventData event \<Rightarrow>
                            (let eventName = Name event
                             in if eventSource = ''j'' then
                                  (let e2 = log_Trace e1 (''Notify Go subscribers to event '%s'' @ [CHR 0x27])
                                   in Inr (e2\<lparr>spawned := spawned e2 @ [NotifyTask eventName event]\<rparr>))
                                else if eventSource = ''g'' then
                                  (let e2 = log_Trace e1 ''Got Go Event: %s''
                                   in Inr (e2\<lparr>spawned := spawned e2 @ [NotifyTask eventName event]\<rparr>))
                                else Inr (log_Error e1 ''unknown emit event message: %+v''))
                        | _ \<Rightarrow> Inl InterfaceConversion))
               else if eventType = ''on'' then
                 (case MsgData eventMessage of
                    OnData message \<Rightarrow>
                      Inr (log_Trace (RegisterListener e (OnName message) (Callback message))
                             ''Registered listener for event '%s' with callback %p'')
                  | _ \<Rightarrow> Inl InterfaceConversion)
               else Inr (log_Error e ''unknown event message: %+v'')))"

definition shutdown :: "Event \<Rightarrow> Event" where
  "shutdown e = log_Trace e ''Shutdown''"

text \<open>
  \<open>Start\<close>, lines 79-136: it logs, sets \<open>running\<close> and launches the loop as a goroutine.
  The loop is \<open>run_loop\<close>; what the \<open>select\<close> receives, in the order it receives it, is
  the list of signals. A quit signal clears \<open>running\<close>, so the loop condition fails next
  and \<open>shutdown\<close> runs. When the signals are used up the loop waits in the \<open>select\<close>,
  and the state reached so far is returned with \<open>running\<close> still set. A panic ends the
  goroutine.
\<close>

definition Start :: "Event \<Rightarrow> Event" where
  "Start e = (log_Trace e ''Starting'')\<lparr>running := True\<rparr>"

datatype signal = Quit | Inbound Message

fun run_loop :: "Event \<Rightarrow> signal list \<Rightarrow> panic + Event" where
  "run_loop e [] = (if running e then Inr e else Inr (shutdown e))"
| "run_loop e (s # ss) =
     (if \<not> running e then Inr (shutdown e)
      else (case s of
              Quit \<Rightarrow> run_loop (e\<lparr>running := False\<rparr>) ss
            | Inbound eventMessage \<Rightarrow>
                (case on_eventMessage e eventMessage of
                   Inl p \<Rightarrow> Inl p
                 | Inr e' \<Rightarrow> run_loop e' ss)))"

subsection \<open>The calls as atomic steps\<close>

text \<open>
  For the interplay of calls that run at the same time, each call is cut at the points
  where another goroutine can run in between. A step that needs the mutex is not enabled
  (\<open>None\<close>) while the mutex is held.

  \<open>notifyListeners\<close>: the lookup of line 142 with the \<open>nil\<close> test; \<open>Lock\<close> (line 149);
  lines 152-187, the loops and \<open>Unlock\<close>.
\<close>

datatype notify_pc = N_lookup | N_lock "addr list" | N_loops "addr list" | N_return

fun notify_step ::
  "string \<Rightarrow> EventMessage \<Rightarrow> notify_pc \<Rightarrow> Event \<Rightarrow> (notify_pc \<times> Event) option" where
  "notify_step eventName message N_lookup e =
     (case index_listeners e eventName of
        NilSlice \<Rightarrow>
          Some (N_return, e\<lparr>console := console e @ [''no listeners for '' @ eventName]\<rparr>)
      | Slice ls \<Rightarrow> Some (N_lock ls, e))"
| "notify_step eventName message (N_lock ls) e =
     (if notifyLock e then None else Some (N_loops ls, e\<lparr>notifyLock := True\<rparr>))"
| "notify_step eventName message (N_loops ls) e =
     Some (N_return, (notify_locked e eventName message ls)\<lparr>notifyLock := False\<rparr>)"
| "notify_step eventName message N_return e = None"

text \<open>
  \<open>RegisterListener\<close>: the allocation of lines 66-70; \<open>Lock\<close> (line 72); the append of
  line 74 and \<open>Unlock\<close>.
\<close>

datatype register_pc = R_new | R_lock addr | R_append addr | R_return

fun register_step ::
  "string \<Rightarrow> func \<Rightarrow> register_pc \<Rightarrow> Event \<Rightarrow> (register_pc \<times> Event) option" where
  "register_step eventName cb R_new e =
     Some (R_lock (next_addr e),
           e\<lparr>heap := (heap e)(next_addr e := \<lparr>callback = cb, counter = 0, delete = False\<rparr>),
             next_addr := Suc (next_addr e)\<rparr>)"
| "register_step eventName cb (R_lock a) e =
     (if notifyLock e then None else Some (R_append a, e\<lparr>notifyLock := True\<rparr>))"
| "register_step eventName cb (R_append a) e =
     Some (R_return,
           e\<lparr>listeners := (listeners e)(eventName \<mapsto> append_slice (index_listeners e eventName) a),
             notifyLock := False\<rparr>)"
| "register_step eventName cb R_return e = None"

datatype thread =
    NotifyThread string EventMessage notify_pc
  | RegisterThread string func register_pc

fun thread_step :: "thread \<Rightarrow> Event \<Rightarrow> (thread \<times> Event) option" where
  "thread_step (NotifyThread x m pc) e =
     (case notify_step x m pc e of
        None \<Rightarrow> None
      | Some (pc', e') \<Rightarrow> Some (NotifyThread x m pc', e'))"
| "thread_step (RegisterThread x cb pc) e =
     (case register_step x cb pc e of
        None \<Rightarrow> None
      | Some (pc', e') \<Rightarrow> Some (RegisterThread x cb pc', e'))"

text \<open>
  A schedule names, step by step, the thread that moves. It is refused when it names a
  thread that does not exist or that cannot move.
\<close>

fun run_schedule :: "nat list \<Rightarrow> thread list \<Rightarrow> Event \<Rightarrow> (thread list \<times> Event) option" where
  "run_schedule [] ts e = Some (ts, e)"
| "run_schedule (i # is) ts e =
     (if i < length ts
      then (case thread_step (ts ! i) e of
              None \<Rightarrow> None
            | Some (t', e') \<Rightarrow> run_schedule is (ts[i := t']) e')
      else None)"

subsection \<open>Well-formed registries\<close>

text \<open>
  An allocation returns a record that nothing refers to yet. In the store this reads:
  every address in the map lies below \<open>next_addr\<close>, and no sequence holds an address
  twice. \<open>NewEvent\<close> establishes this and every operation keeps it.
\<close>

definition wf_registry :: "Event \<Rightarrow> bool" where
  "wf_registry e \<longleftrightarrow>
     (\<forall>x. distinct (elems (index_listeners e x))
          \<and> (\<forall>a\<in>set (elems (index_listeners e x)). a < next_addr e))"

section \<open>The dependency scan (internal/system/packagemanager/packagemanager.go)\<close>

text \<open>The structs \<open>Package\<close> (lines 22-29) and \<open>Dependancy\<close> (lines 74-82).\<close>

record Package =
  PkgName :: string
  PkgVersion :: string
  PkgInstallCommand :: "string \<rightharpoonup> string"
  SystemPackage :: bool
  Library :: bool
  Optional :: bool

record Dependancy =
  DepName :: string
  PackageName :: string
  Installed :: bool
  DepInstallCommand :: string
  DepVersion :: string
  DepOptional :: bool
  External :: bool

text \<open>
  The interface \<open>PackageManager\<close> (lines 13-19) as a record of its methods. \<open>Packages\<close>
  returns a Go map, whose iteration order is not fixed: it is given as the list of its
  entries in the order in which the \<open>range\<close> of line 132 visits them.
\<close>

record PackageManager =
  PMName :: string
  Packages :: "(string \<times> Package list) list"
  PackageInstalled :: "Package \<Rightarrow> error + bool"
  PackageAvailable :: "Package \<Rightarrow> error + bool"
  InstallCommand :: "Package \<Rightarrow> string"

text \<open>
  \<open>AppVersion\<close> (lines 173-193) chooses among four functions that ask the installed
  tools for their version through the shell; what they return is a parameter.
\<close>

record versions =
  gccVersion :: string
  pkgConfigVersion :: string
  npmVersion :: string
  dockerVersion :: string

definition AppVersion :: "versions \<Rightarrow> string \<Rightarrow> string" where
  "AppVersion v name =
     (if name = ''gcc'' then gccVersion v
      else if name = ''pkg-config'' then pkgConfigVersion v
      else if name = ''npm'' then npmVersion v
      else if name = ''docker'' then dockerVersion v
      else [])"

text \<open>
  The inner loop, lines 134-160, over the packages of one name: it returns early with the
  error of a query and leaves the loop (\<open>break\<close>) at the first available package.
\<close>

fun scan_packages ::
  "PackageManager \<Rightarrow> versions \<Rightarrow> string \<Rightarrow> Package list \<Rightarrow> Dependancy \<Rightarrow> error + Dependancy" where
  "scan_packages p v name [] dependency = Inr dependency"
| "scan_packages p v name (pkg # pkgs) dependency =
     (let d1 = dependency\<lparr>DepOptional := Optional pkg, External := \<not> SystemPackage pkg,
                          DepInstallCommand := InstallCommand p pkg\<rparr>
      in case PackageAvailable p pkg of
           Inl err \<Rightarrow> Inl err
         | Inr packageavailable \<Rightarrow>
             if packageavailable then
               (let d2 = d1\<lparr>DepVersion := PkgVersion pkg, PackageName := PkgName pkg\<rparr>
                in case PackageInstalled p pkg of
                     Inl err \<Rightarrow> Inl err
                   | Inr installed \<Rightarrow>
                       if installed then
                         (let d3 = d2\<lparr>Installed := True, DepVersion := PkgVersion pkg\<rparr>
                          in if \<not> Library pkg
                             then Inr (d3\<lparr>DepVersion := AppVersion v name\<rparr>)
                             else Inr d3)
                       else Inr (d2\<lparr>DepInstallCommand := InstallCommand p pkg\<rparr>))
             else scan_packages p v name pkgs d1)"

text \<open>The outer loop, lines 132-162: one dependency per name, appended in visiting order.\<close>

fun scan_all ::
  "PackageManager \<Rightarrow> versions \<Rightarrow> (string \<times> Package list) list \<Rightarrow> Dependancy list
     \<Rightarrow> error + Dependancy list" where
  "scan_all p v [] dependencies = Inr dependencies"
| "scan_all p v ((name, packages) # rest) dependencies =
     (case scan_packages p v name packages
             \<lparr>DepName = name, PackageName = [], Installed = False, DepInstallCommand = [],
              DepVersion = [], DepOptional = False, External = False\<rparr> of
        Inl err \<Rightarrow> Inl err
      | Inr dependency \<Rightarrow> scan_all p v rest (dependencies @ [dependency]))"

text \<open>
  \<open>sort.Slice\<close> of the Go library sorts a slice in place by a \<open>less\<close> function. It is
  modelled by an insertion sort that uses only \<open>less\<close>.
\<close>

fun insert_less :: "('a \<Rightarrow> 'a \<Rightarrow> bool) \<Rightarrow> 'a \<Rightarrow> 'a list \<Rightarrow> 'a list" where
  "insert_less lessf x [] = [x]"
| "insert_less lessf x (y # ys) =
     (if lessf y x then y # insert_less lessf x ys else x # y # ys)"

fun sort_Slice :: "('a \<Rightarrow> 'a \<Rightarrow> bool) \<Rightarrow> 'a list \<Rightarrow> 'a list" where
  "sort_Slice lessf [] = []"
| "sort_Slice lessf (x # xs) = insert_less lessf x (sort_Slice lessf xs)"

text \<open>
  \<open>Dependancies\<close>, lines 128-170. Go compares strings byte by byte, which is the
  lexicographic order on \<open>string\<close>.
\<close>

definition Dependancies :: "PackageManager \<Rightarrow> versions \<Rightarrow> error + Dependancy list" where
  "Dependancies p v =
     (case scan_all p v (Packages p) [] of
        Inl err \<Rightarrow> Inl err
      | Inr dependencies \<Rightarrow> Inr (sort_Slice (\<lambda>a b. DepName a < DepName b) dependencies))"

section \<open>Example states\<close>

text \<open>
  A bus on which every subscription succeeds (it hands out channel numbers in turn), one
  on which the subscription to \<open>event\<close> fails, and the \<open>Event\<close> that \<open>NewEvent\<close>
  builds on the first.
\<close>

definition example_bus :: "nat subscribe" where
  "example_bus b topic = (Inr b, Suc b)"

definition failing_bus :: "nat subscribe" where
  "failing_bus b topic =
     (if topic = ''event'' then (Inl ''subscribe failed'', b) else (Inr b, Suc b))"

definition example_event :: Event where
  "example_event =
     \<lparr>quitChannel = 0, eventChannel = 1, running = False, listeners = Map.empty,
      notifyLock = False, logger = [], heap = empty_heap, next_addr = 0, spawned = [],
      console = []\<rparr>"

definition example_manager :: PackageManager where
  "example_manager =
     \<lparr>PMName = ''apt'',
      Packages =
        [(''npm'', [\<lparr>PkgName = ''npm'', PkgVersion = ''6'', PkgInstallCommand = Map.empty,
                      SystemPackage = True, Library = False, Optional = False\<rparr>]),
         (''gcc'', [\<lparr>PkgName = ''build-essential'', PkgVersion = ''12'',
                      PkgInstallCommand = Map.empty, SystemPackage = True, Library = False,
                      Optional = False\<rparr>]),
         (''docker'', [])],
      PackageInstalled = (\<lambda>pkg. Inr (PkgName pkg = ''npm'')),
      PackageAvailable = (\<lambda>pkg. Inr True),
      InstallCommand = (\<lambda>pkg. ''sudo apt install '' @ PkgName pkg)\<rparr>"

definition example_versions :: versions where
  "example_versions =
     \<lparr>gccVersion = ''12.2.0'', pkgConfigVersion = ''0.29'', npmVersion = ''6.14'',
      dockerVersion = ''20.10.7 (f0df350)''\<rparr>"

definition example_message :: EventMessage where
  "example_message = \<lparr>Name = ''x'', Data = [IInt 1, IInt 2, IInt 3]\<rparr>"

text \<open>
  A state with two listeners for \<open>x\<close> whose counters are finite: the first has one
  invocation left, the second two.
\<close>

definition example_expiring :: Event where
  "example_expiring =
     example_event
       \<lparr>listeners := [''x'' \<mapsto> Slice [0, 1]],
        heap := empty_heap(0 := \<lparr>callback = 7, counter = 1, delete = False\<rparr>,
                           1 := \<lparr>callback = 8, counter = 2, delete = False\<rparr>),
        next_addr := 2\<rparr>"

section \<open>The notification loop\<close>

lemma notify_one_other: "a \<noteq> x \<Longrightarrow> fst (notify_one x d st) a = fst st a"
  by (cases st) (simp add: Let_def)

lemma notify_one_callback: "callback (fst (notify_one x d st) a) = callback (fst st a)"
  by (cases st) (simp add: Let_def)

lemma notify_one_delete_mono: "delete (fst st a) \<Longrightarrow> delete (fst (notify_one x d st) a)"
  by (cases st) (auto simp add: Let_def)

lemma notify_one_flag_mono: "snd (snd st) \<Longrightarrow> snd (snd (notify_one x d st))"
  by (cases st) (simp add: Let_def)

lemma notify_one_zero_stays:
  "counter (fst st a) = 0 \<Longrightarrow> counter (fst (notify_one x d st) a) = 0"
  by (cases st) (auto simp add: Let_def)

lemma notify_one_spawned:
  "fst (snd (notify_one x d st)) = fst (snd st) @ [CallbackTask (callback (fst st x)) d]"
  by (cases st) (simp add: Let_def)

lemma notify_one_counter:
  "counter (fst (notify_one x d st) x) =
     (if 0 < sint (counter (fst st x)) then counter (fst st x) - 1 else counter (fst st x))"
  by (cases st) (simp add: Let_def)

lemma notify_one_flag:
  "snd (snd (notify_one x d st)) \<longleftrightarrow> snd (snd st) \<or> counter (fst (notify_one x d st) x) = 0"
  by (cases st) (simp add: Let_def)

lemma notify_one_marked:
  "counter (fst (notify_one x d st) x) = 0 \<Longrightarrow> delete (fst (notify_one x d st) x)"
  by (cases st) (simp add: Let_def split: if_splits)

lemma notify_loop_spawned:
  "fst (snd (notify_loop ls d st)) = fst (snd st) @ map (\<lambda>a. CallbackTask (callback (fst st a)) d) ls"
  by (induction ls arbitrary: st) (simp_all add: notify_one_spawned notify_one_callback)

lemma notify_loop_other:
  "a \<notin> set ls \<Longrightarrow> fst (notify_loop ls d st) a = fst st a"
  by (induction ls arbitrary: st) (simp_all add: notify_one_other)

lemma notify_loop_delete_mono:
  "delete (fst st a) \<Longrightarrow> delete (fst (notify_loop ls d st) a)"
  by (induction ls arbitrary: st) (simp_all add: notify_one_delete_mono)

lemma notify_loop_flag_mono:
  "snd (snd st) \<Longrightarrow> snd (snd (notify_loop ls d st))"
  by (induction ls arbitrary: st) (simp_all add: notify_one_flag_mono)

lemma notify_loop_zero_stays:
  "counter (fst st a) = 0 \<Longrightarrow> counter (fst (notify_loop ls d st) a) = 0"
  by (induction ls arbitrary: st) (simp_all add: notify_one_zero_stays)

lemma notify_loop_flag_iff:
  "snd (snd (notify_loop ls d st)) \<longleftrightarrow>
     snd (snd st) \<or> (\<exists>a\<in>set ls. counter (fst (notify_loop ls d st) a) = 0)"
proof (induction ls arbitrary: st)
  case Nil
  then show ?case by simp
next
  case (Cons x xs)
  let ?st1 = "notify_one x d st"
  have step: "snd (snd ?st1) \<longleftrightarrow> snd (snd st) \<or> counter (fst ?st1 x) = 0"
    by (rule notify_one_flag)
  have keep: "counter (fst ?st1 x) = 0 \<longleftrightarrow> counter (fst (notify_loop xs d ?st1) x) = 0"
    if "x \<notin> set xs"
    using that by (simp add: notify_loop_other)
  have stay: "counter (fst ?st1 x) = 0 \<Longrightarrow> counter (fst (notify_loop xs d ?st1) x) = 0"
    by (rule notify_loop_zero_stays)
  show ?case
    using Cons.IH [of ?st1] step keep stay by auto
qed

lemma notify_loop_zero_marked:
  "a \<in> set ls \<Longrightarrow> counter (fst (notify_loop ls d st) a) = 0 \<Longrightarrow>
     delete (fst (notify_loop ls d st) a)"
proof (induction ls arbitrary: st)
  case Nil
  then show ?case by simp
next
  case (Cons x xs)
  show ?case
  proof (cases "a \<in> set xs")
    case True
    with Cons.IH [of "notify_one x d st"] Cons.prems(2) show ?thesis by simp
  next
    case False
    with Cons.prems have ax: "a = x" by simp
    from False Cons.prems(2) show ?thesis
      by (simp add: ax notify_loop_other notify_one_marked)
  qed
qed

lemma notify_loop_counter:
  "distinct ls \<Longrightarrow> a \<in> set ls \<Longrightarrow>
     counter (fst (notify_loop ls d st) a) =
       (if 0 < sint (counter (fst st a)) then counter (fst st a) - 1 else counter (fst st a))"
proof (induction ls arbitrary: st)
  case Nil
  then show ?case by simp
next
  case (Cons x xs)
  show ?case
  proof (cases "a = x")
    case True
    with Cons.prems(1) show ?thesis
      by (simp add: notify_loop_other notify_one_counter)
  next
    case False
    with Cons.prems Cons.IH [of "notify_one x d st"] show ?thesis
      by (simp add: notify_one_other)
  qed
qed

lemma sint_dec: "0 < sint (c :: 64 word) \<Longrightarrow> sint (c - 1) = sint c - 1"
proof -
  assume pos: "0 < sint c"
  have up: "sint c < 2 ^ 63"
    using sint_lt [of c] by simp
  have "sint (c - 1) = signed_take_bit 63 (sint c - 1)"
    by (simp add: sint_word_ariths)
  also have "\<dots> = sint c - 1"
    using pos up by (simp add: signed_take_bit_int_eq_self)
  finally show ?thesis .
qed

section \<open>notifyListeners on a sequence\<close>

lemma heap_notifyListeners:
  "index_listeners e x = Slice ls \<Longrightarrow>
     heap (notifyListeners e x m) = fst (notify_loop ls (Data m) (heap e, spawned e, False))"
  by (simp add: notifyListeners_def notify_locked_def Let_def split: prod.splits)

lemma spawned_notifyListeners:
  "index_listeners e x = Slice ls \<Longrightarrow>
     spawned (notifyListeners e x m) = fst (snd (notify_loop ls (Data m) (heap e, spawned e, False)))"
  by (simp add: notifyListeners_def notify_locked_def Let_def split: prod.splits)

lemma listeners_notifyListeners:
  "index_listeners e x = Slice ls \<Longrightarrow>
     listeners (notifyListeners e x m) =
       (if snd (snd (notify_loop ls (Data m) (heap e, spawned e, False)))
        then (listeners e)(x \<mapsto> cleanup (fst (notify_loop ls (Data m) (heap e, spawned e, False))) ls)
        else listeners e)"
  by (simp add: notifyListeners_def notify_locked_def Let_def split: prod.splits)

lemma listeners_notifyListeners_nil:
  "index_listeners e x = NilSlice \<Longrightarrow>
     notifyListeners e x m = e\<lparr>console := console e @ [''no listeners for '' @ x]\<rparr>"
  by (simp add: notifyListeners_def)

lemma rebuilt_iff:
  assumes "index_listeners e x = Slice ls"
  shows "snd (snd (notify_loop ls (Data m) (heap e, spawned e, False))) \<longleftrightarrow>
           (\<exists>a\<in>set ls. counter (heap (notifyListeners e x m) a) = 0)"
  using notify_loop_flag_iff [of ls "Data m" "(heap e, spawned e, False)"]
  by (simp add: heap_notifyListeners [OF assms])

section \<open>Expiring listeners\<close>

lemma index_example_expiring: "index_listeners example_expiring ''x'' = Slice [0, 1]"
  by (simp add: index_listeners_def example_expiring_def example_event_def)

text \<open>
  Claim C5. Let \<open>ls\<close> be the sequence that \<open>notifyListeners\<close> finds for the event
  name \<open>x\<close>. A record of \<open>ls\<close> whose counter was positive and is zero after the call
  is not in the sequence stored for \<open>x\<close> after the call. Whenever some record of
  \<open>ls\<close> has a zero counter after the call, the sequence stored for \<open>x\<close> is exactly
  \<open>ls\<close> without the records marked for removal, in the same order; otherwise the
  entry for \<open>x\<close> is left as it was.
\<close>

theorem expired_listener_removed:
  assumes "index_listeners e x = Slice ls"
  shows "(\<forall>a\<in>set ls. 0 < sint (counter (heap e a)) \<and> counter (heap (notifyListeners e x m) a) = 0
            \<longrightarrow> a \<notin> set (elems (index_listeners (notifyListeners e x m) x)))
       \<and> ((\<exists>a\<in>set ls. counter (heap (notifyListeners e x m) a) = 0) \<longrightarrow>
            listeners (notifyListeners e x m) x =
              Some (Slice (filter (\<lambda>a. \<not> delete (heap (notifyListeners e x m) a)) ls)))
       \<and> (\<not> (\<exists>a\<in>set ls. counter (heap (notifyListeners e x m) a) = 0) \<longrightarrow>
            listeners (notifyListeners e x m) x = listeners e x)"
proof -
  let ?e' = "notifyListeners e x m"
  let ?st' = "notify_loop ls (Data m) (heap e, spawned e, False)"
  have h': "heap ?e' = fst ?st'"
    using assms by (rule heap_notifyListeners)
  have flag: "snd (snd ?st') \<longleftrightarrow> (\<exists>a\<in>set ls. counter (heap ?e' a) = 0)"
    using assms by (rule rebuilt_iff)
  have ls': "listeners ?e' = (if snd (snd ?st') then (listeners e)(x \<mapsto> cleanup (fst ?st') ls) else listeners e)"
    using assms by (rule listeners_notifyListeners)
  have rebuilt: "listeners ?e' x = Some (Slice (filter (\<lambda>a. \<not> delete (heap ?e' a)) ls))"
    if "\<exists>a\<in>set ls. counter (heap ?e' a) = 0"
    using that flag ls' h' by (simp add: cleanup_def)
  have kept: "listeners ?e' x = listeners e x"
    if "\<not> (\<exists>a\<in>set ls. counter (heap ?e' a) = 0)"
    using that flag ls' by simp
  have gone: "a \<notin> set (elems (index_listeners ?e' x))"
    if a: "a \<in> set ls" and z: "counter (heap ?e' a) = 0" for a
  proof -
    have "delete (heap ?e' a)"
      using notify_loop_zero_marked [of a ls "Data m" "(heap e, spawned e, False)"] a z h' by simp
    moreover have "listeners ?e' x = Some (Slice (filter (\<lambda>a. \<not> delete (heap ?e' a)) ls))"
      using rebuilt a z by blast
    ultimately show ?thesis
      by (simp add: index_listeners_def)
  qed
  show ?thesis
    using gone rebuilt kept by blast
qed

theorem expired_listener_removed_witness:
  "index_listeners example_expiring ''x'' = Slice [0, 1]
   \<and> 0 \<in> set [0, 1::nat]
   \<and> 0 < sint (counter (heap example_expiring 0))
   \<and> counter (heap (notifyListeners example_expiring ''x'' example_message) 0) = 0
   \<and> 0 \<notin> set (elems (index_listeners (notifyListeners example_expiring ''x'' example_message) ''x''))
   \<and> listeners (notifyListeners example_expiring ''x'' example_message) ''x'' = Some (Slice [1])"
proof -
  have ix: "index_listeners example_expiring ''x'' = Slice [0, 1]"
    by (rule index_example_expiring)
  have h0: "heap example_expiring 0 = \<lparr>callback = 7, counter = 1, delete = False\<rparr>"
    by (simp add: example_expiring_def example_event_def)
  have h1: "heap example_expiring (Suc 0) = \<lparr>callback = 8, counter = 2, delete = False\<rparr>"
    by (simp add: example_expiring_def example_event_def)
  have c0: "counter (heap (notifyListeners example_expiring ''x'' example_message) 0) = 0"
    by (simp add: heap_notifyListeners [OF ix] Let_def h0 h1)
  have d0: "delete (heap (notifyListeners example_expiring ''x'' example_message) 0)"
    by (simp add: heap_notifyListeners [OF ix] Let_def h0 h1)
  have d1: "\<not> delete (heap (notifyListeners example_expiring ''x'' example_message) 1)"
    by (simp add: heap_notifyListeners [OF ix] Let_def h0 h1)
  show ?thesis
    using expired_listener_removed [OF ix, of example_message] ix h0 c0 d0 d1
    by (auto simp add: index_listeners_def)
qed

section \<open>RegisterListener on the registry\<close>

lemma index_RegisterListener:
  "index_listeners (RegisterListener e x cb) y =
     (if y = x then Slice (elems (index_listeners e x) @ [next_addr e]) else index_listeners e y)"
  by (simp add: RegisterListener_def index_listeners_def Let_def)

lemma heap_RegisterListener:
  "heap (RegisterListener e x cb) =
     (heap e)(next_addr e := \<lparr>callback = cb, counter = 0, delete = False\<rparr>)"
  by (simp add: RegisterListener_def Let_def)

lemma spawned_RegisterListener: "spawned (RegisterListener e x cb) = spawned e"
  by (simp add: RegisterListener_def Let_def)

lemma listeners_RegisterListener_other:
  "x \<noteq> y \<Longrightarrow> listeners (RegisterListener e x cb) y = listeners e y"
  by (simp add: RegisterListener_def Let_def)

section \<open>Invocation and counters\<close>

text \<open>
  Claim C4. For every state and every event name \<open>x\<close>, let the snapshot be the
  sequence that \<open>notifyListeners\<close> finds for \<open>x\<close> (empty when the map has no entry).
  The call launches, in order, one callback task per entry of the snapshot, each with the
  message's data, and nothing else. When the entries are distinct records, a counter that
  was positive is lower by exactly one after the call (as a word and as a signed number)
  and any other counter is unchanged; records outside the snapshot are not written.
  \<open>RegisterListener e x cb\<close> appends the newly allocated record, with callback
  \<open>cb\<close>, to the sequence for \<open>x\<close>, also when this is the first registration for
  \<open>x\<close>; when the allocation returns a record that the sequence does not hold yet, the
  next notification launches the earlier callbacks once each and then \<open>cb\<close> once, with
  the message's data. Both side conditions hold in every well-formed registry
  (\<open>wf_distinct\<close> and \<open>wf_fresh\<close> below), hence in every state that the operations
  can build.
\<close>

theorem notify_launches_each_record_once:
  "spawned (notifyListeners e x m) =
     spawned e @ map (\<lambda>a. CallbackTask (callback (heap e a)) (Data m))
                   (elems (index_listeners e x))
   \<and> (distinct (elems (index_listeners e x)) \<longrightarrow>
        (\<forall>a\<in>set (elems (index_listeners e x)).
           (0 < sint (counter (heap e a)) \<longrightarrow>
              counter (heap (notifyListeners e x m) a) = counter (heap e a) - 1
              \<and> sint (counter (heap (notifyListeners e x m) a)) = sint (counter (heap e a)) - 1)
         \<and> (\<not> 0 < sint (counter (heap e a)) \<longrightarrow>
              counter (heap (notifyListeners e x m) a) = counter (heap e a))))
   \<and> (\<forall>a. a \<notin> set (elems (index_listeners e x)) \<longrightarrow>
         heap (notifyListeners e x m) a = heap e a)
   \<and> index_listeners (RegisterListener e x cb) x =
       Slice (elems (index_listeners e x) @ [next_addr e])
   \<and> callback (heap (RegisterListener e x cb) (next_addr e)) = cb
   \<and> (next_addr e \<notin> set (elems (index_listeners e x)) \<longrightarrow>
        spawned (notifyListeners (RegisterListener e x cb) x m) =
          spawned e @ map (\<lambda>a. CallbackTask (callback (heap e a)) (Data m))
                        (elems (index_listeners e x))
            @ [CallbackTask cb (Data m)])"
proof -
  let ?ls = "elems (index_listeners e x)"
  have sp: "spawned (notifyListeners e x m) =
              spawned e @ map (\<lambda>a. CallbackTask (callback (heap e a)) (Data m)) ?ls"
  proof (cases "index_listeners e x")
    case NilSlice
    then show ?thesis by (simp add: notifyListeners_def)
  next
    case (Slice ls)
    then show ?thesis
      by (simp add: spawned_notifyListeners [OF Slice] notify_loop_spawned)
  qed
  have oth: "heap (notifyListeners e x m) a = heap e a" if "a \<notin> set ?ls" for a
  proof (cases "index_listeners e x")
    case NilSlice
    then show ?thesis by (simp add: notifyListeners_def)
  next
    case (Slice ls)
    with that have "a \<notin> set ls" by simp
    then show ?thesis
      using notify_loop_other [of a ls "Data m" "(heap e, spawned e, False)"]
      by (simp add: heap_notifyListeners [OF Slice])
  qed
  have cnt: "counter (heap (notifyListeners e x m) a) =
               (if 0 < sint (counter (heap e a)) then counter (heap e a) - 1
                else counter (heap e a))"
    if d: "distinct ?ls" and a: "a \<in> set ?ls" for a
  proof (cases "index_listeners e x")
    case NilSlice
    with a show ?thesis by simp
  next
    case (Slice ls)
    with d a have "distinct ls" "a \<in> set ls" by simp_all
    then show ?thesis
      using notify_loop_counter [of ls a "Data m" "(heap e, spawned e, False)"]
      by (simp add: heap_notifyListeners [OF Slice])
  qed
  have cnt2: "(0 < sint (counter (heap e a)) \<longrightarrow>
                  counter (heap (notifyListeners e x m) a) = counter (heap e a) - 1
                  \<and> sint (counter (heap (notifyListeners e x m) a)) = sint (counter (heap e a)) - 1)
             \<and> (\<not> 0 < sint (counter (heap e a)) \<longrightarrow>
                  counter (heap (notifyListeners e x m) a) = counter (heap e a))"
    if "distinct ?ls" "a \<in> set ?ls" for a
    using cnt [OF that] by (simp add: sint_dec)
  let ?e1 = "RegisterListener e x cb"
  have ix: "index_listeners ?e1 x = Slice (?ls @ [next_addr e])"
    by (simp add: index_RegisterListener)
  have cb: "callback (heap ?e1 (next_addr e)) = cb"
    by (simp add: heap_RegisterListener)
  have reg: "spawned (notifyListeners ?e1 x m) =
               spawned e @ map (\<lambda>a. CallbackTask (callback (heap e a)) (Data m)) ?ls
                 @ [CallbackTask cb (Data m)]"
    if fresh: "next_addr e \<notin> set ?ls"
  proof -
    have old: "map (\<lambda>a. CallbackTask (callback (heap ?e1 a)) (Data m)) ?ls =
               map (\<lambda>a. CallbackTask (callback (heap e a)) (Data m)) ?ls"
      using fresh by (auto simp add: heap_RegisterListener)
    show ?thesis
      by (simp add: spawned_notifyListeners [OF ix] notify_loop_spawned old
            spawned_RegisterListener)
        (simp add: heap_RegisterListener)
  qed
  show ?thesis
    using sp cnt2 oth ix cb reg by blast
qed

theorem notify_launches_each_record_once_witness:
  "elems (index_listeners example_event ''x'') = []
   \<and> next_addr example_event \<notin> set (elems (index_listeners example_event ''x''))
   \<and> index_listeners (RegisterListener example_event ''x'' 7) ''x'' = Slice [0]
   \<and> spawned (notifyListeners (RegisterListener example_event ''x'' 7) ''x'' example_message) =
        [CallbackTask 7 [IInt 1, IInt 2, IInt 3]]
   \<and> elems (index_listeners example_expiring ''x'') = [0, 1]
   \<and> distinct (elems (index_listeners example_expiring ''x''))
   \<and> next_addr example_expiring \<notin> set (elems (index_listeners example_expiring ''x''))
   \<and> spawned (notifyListeners example_expiring ''x'' example_message) =
        [CallbackTask 7 [IInt 1, IInt 2, IInt 3], CallbackTask 8 [IInt 1, IInt 2, IInt 3]]
   \<and> counter (heap (notifyListeners example_expiring ''x'' example_message) 0) = 0
   \<and> counter (heap (notifyListeners example_expiring ''x'' example_message) 1) = 1
   \<and> spawned (notifyListeners (RegisterListener example_expiring ''x'' 9) ''x'' example_message) =
        [CallbackTask 7 [IInt 1, IInt 2, IInt 3], CallbackTask 8 [IInt 1, IInt 2, IInt 3],
         CallbackTask 9 [IInt 1, IInt 2, IInt 3]]"
proof -
  have ix0: "index_listeners example_event ''x'' = NilSlice"
    by (simp add: index_listeners_def example_event_def)
  have nx0: "next_addr example_event = 0" and sp0: "spawned example_event = []"
    by (simp_all add: example_event_def)
  have ix: "index_listeners example_expiring ''x'' = Slice [0, 1]"
    by (rule index_example_expiring)
  have h0: "heap example_expiring 0 = \<lparr>callback = 7, counter = 1, delete = False\<rparr>"
    by (simp add: example_expiring_def example_event_def)
  have h1: "heap example_expiring 1 = \<lparr>callback = 8, counter = 2, delete = False\<rparr>"
    by (simp add: example_expiring_def example_event_def)
  have sp: "spawned example_expiring = []"
    by (simp add: example_expiring_def example_event_def)
  have nx: "next_addr example_expiring = 2"
    by (simp add: example_expiring_def example_event_def)
  have d: "Data example_message = [IInt 1, IInt 2, IInt 3]"
    by (simp add: example_message_def)
  show ?thesis
    using notify_launches_each_record_once [of example_event "''x''" example_message 7]
      notify_launches_each_record_once [of example_expiring "''x''" example_message 9]
      ix0 nx0 sp0 ix h0 h1 sp nx d
    by simp
qed

section \<open>Notification without listeners\<close>

text \<open>
  Claim C6. When the map has no entry for \<open>x\<close>, or the entry is an empty sequence,
  \<open>notifyListeners\<close> returns normally, launches no callback and leaves the map and the
  records as they were: with no entry the only effect is the line printed, with an
  empty sequence there is none.
\<close>

theorem notify_without_listeners_noop:
  assumes "elems (index_listeners e x) = []"
  shows "listeners (notifyListeners e x m) = listeners e
       \<and> heap (notifyListeners e x m) = heap e
       \<and> spawned (notifyListeners e x m) = spawned e
       \<and> notifyListeners e x m =
           (case index_listeners e x of
              NilSlice \<Rightarrow> e\<lparr>console := console e @ [''no listeners for '' @ x]\<rparr>
            | Slice ls \<Rightarrow> e)"
proof (cases "index_listeners e x")
  case NilSlice
  then show ?thesis
    by (simp add: notifyListeners_def)
next
  case (Slice ls)
  with assms have "ls = []" by simp
  with Slice show ?thesis
    by (simp add: notifyListeners_def notify_locked_def)
qed

theorem notify_without_listeners_noop_witness:
  "elems (index_listeners example_event ''unknown-event'') = []
   \<and> listeners (notifyListeners example_event ''unknown-event'' example_message) = Map.empty
   \<and> spawned (notifyListeners example_event ''unknown-event'' example_message) = []
   \<and> notifyListeners example_event ''unknown-event'' example_message =
       example_event\<lparr>console := [''no listeners for unknown-event'']\<rparr>"
proof -
  have ix: "index_listeners example_event ''unknown-event'' = NilSlice"
    by (simp add: index_listeners_def example_event_def)
  have em: "elems (index_listeners example_event ''unknown-event'') = []"
    by (simp add: ix)
  show ?thesis
    using notify_without_listeners_noop [OF em, of example_message] ix
    by (simp add: example_event_def)
qed

section \<open>Other event names\<close>

text \<open>
  Claim C10. For distinct event names \<open>x\<close> and \<open>y\<close>, neither
  \<open>RegisterListener\<close> nor \<open>notifyListeners\<close> on \<open>x\<close> changes the map entry for
  \<open>y\<close>. The records are touched only where the call works: registration writes the
  newly allocated record, notification the records of the sequence for \<open>x\<close>.
\<close>

theorem other_event_names_untouched:
  assumes "x \<noteq> y"
  shows "listeners (RegisterListener e x cb) y = listeners e y
       \<and> listeners (notifyListeners e x m) y = listeners e y
       \<and> (\<forall>a. a \<noteq> next_addr e \<longrightarrow> heap (RegisterListener e x cb) a = heap e a)
       \<and> (\<forall>a. a \<notin> set (elems (index_listeners e x)) \<longrightarrow>
             heap (notifyListeners e x m) a = heap e a)"
proof -
  have r: "listeners (RegisterListener e x cb) y = listeners e y"
    using assms by (rule listeners_RegisterListener_other)
  have n: "listeners (notifyListeners e x m) y = listeners e y"
  proof (cases "index_listeners e x")
    case NilSlice
    then show ?thesis by (simp add: notifyListeners_def)
  next
    case (Slice ls)
    then show ?thesis
      using assms by (simp add: listeners_notifyListeners)
  qed
  have rh: "heap (RegisterListener e x cb) a = heap e a" if "a \<noteq> next_addr e" for a
    using that by (simp add: heap_RegisterListener)
  have nh: "heap (notifyListeners e x m) a = heap e a"
    if "a \<notin> set (elems (index_listeners e x))" for a
  proof (cases "index_listeners e x")
    case NilSlice
    then show ?thesis by (simp add: notifyListeners_def)
  next
    case (Slice ls)
    with that have "a \<notin> set ls" by simp
    then show ?thesis
      using notify_loop_other [of a ls "Data m" "(heap e, spawned e, False)"]
      by (simp add: heap_notifyListeners [OF Slice])
  qed
  show ?thesis
    using r n rh nh by blast
qed

theorem other_event_names_untouched_witness:
  "''x'' \<noteq> ''y''
   \<and> listeners (RegisterListener example_expiring ''y'' 9) ''x'' = Some (Slice [0, 1])
   \<and> listeners (notifyListeners (RegisterListener example_expiring ''y'' 9) ''y'' example_message) ''x''
        = Some (Slice [0, 1])
   \<and> heap (notifyListeners (RegisterListener example_expiring ''y'' 9) ''y'' example_message) 0
        = \<lparr>callback = 7, counter = 1, delete = False\<rparr>"
proof -
  have ne: "''y'' \<noteq> ''x''" by simp
  have lx: "listeners example_expiring ''x'' = Some (Slice [0, 1])"
    by (simp add: example_expiring_def example_event_def)
  have h0: "heap example_expiring 0 = \<lparr>callback = 7, counter = 1, delete = False\<rparr>"
    by (simp add: example_expiring_def example_event_def)
  have nx: "next_addr example_expiring = 2"
    by (simp add: example_expiring_def example_event_def)
  have iy0: "index_listeners example_expiring ''y'' = NilSlice"
    by (simp add: index_listeners_def example_expiring_def example_event_def)
  have iy: "index_listeners (RegisterListener example_expiring ''y'' 9) ''y'' = Slice [2]"
    by (simp add: index_RegisterListener nx iy0)
  show ?thesis
    using other_event_names_untouched [OF ne, of example_expiring 9 example_message]
      other_event_names_untouched [OF ne, of "RegisterListener example_expiring ''y'' 9" 9
        example_message]
      lx h0 nx iy
    by simp
qed

section \<open>Well-formed registries are preserved\<close>

lemma next_addr_RegisterListener: "next_addr (RegisterListener e x cb) = Suc (next_addr e)"
  by (simp add: RegisterListener_def Let_def)

lemma next_addr_notifyListeners: "next_addr (notifyListeners e x m) = next_addr e"
  by (cases "index_listeners e x")
    (simp_all add: notifyListeners_def notify_locked_def Let_def split: prod.splits)

lemma index_notifyListeners_cases:
  "index_listeners (notifyListeners e x m) y = index_listeners e y
   \<or> index_listeners (notifyListeners e x m) y =
       Slice (filter (\<lambda>a. \<not> delete (heap (notifyListeners e x m) a)) (elems (index_listeners e y)))"
proof (cases "index_listeners e x")
  case NilSlice
  then show ?thesis
    by (simp add: notifyListeners_def index_listeners_def)
next
  case (Slice ls)
  show ?thesis
  proof (cases "y = x")
    case True
    have "listeners (notifyListeners e x m) x = listeners e x
          \<or> listeners (notifyListeners e x m) x =
              Some (Slice (filter (\<lambda>a. \<not> delete (heap (notifyListeners e x m) a)) ls))"
      by (simp add: listeners_notifyListeners [OF Slice] heap_notifyListeners [OF Slice]
            cleanup_def)
    then show ?thesis
      using Slice True by (auto simp add: index_listeners_def)
  next
    case False
    then have "listeners (notifyListeners e x m) y = listeners e y"
      by (simp add: listeners_notifyListeners [OF Slice])
    then show ?thesis
      by (simp add: index_listeners_def)
  qed
qed

lemma wf_registry_cong:
  "listeners e' = listeners e \<Longrightarrow> next_addr e' = next_addr e \<Longrightarrow>
     wf_registry e' = wf_registry e"
  by (simp add: wf_registry_def index_listeners_def)

lemma wf_NewEvent: "fst (NewEvent Subscribe bus) = Inr e \<Longrightarrow> wf_registry e"
  by (auto simp add: NewEvent_def wf_registry_def index_listeners_def split: prod.splits sum.splits)

lemma wf_RegisterListener:
  assumes "wf_registry e"
  shows "wf_registry (RegisterListener e x cb)"
proof -
  have old: "distinct (elems (index_listeners e y))"
    and below: "\<And>a. a \<in> set (elems (index_listeners e y)) \<Longrightarrow> a < next_addr e" for y
    using assms by (simp_all add: wf_registry_def)
  have fresh: "next_addr e \<notin> set (elems (index_listeners e x))"
    using below [of "next_addr e" x] by auto
  show ?thesis
    unfolding wf_registry_def
  proof (intro allI conjI ballI)
    fix y
    show "distinct (elems (index_listeners (RegisterListener e x cb) y))"
      using old [of y] old [of x] fresh by (simp add: index_RegisterListener)
  next
    fix y a
    assume "a \<in> set (elems (index_listeners (RegisterListener e x cb) y))"
    then have "a = next_addr e \<or> a \<in> set (elems (index_listeners e y))"
      by (auto simp add: index_RegisterListener split: if_splits)
    then show "a < next_addr (RegisterListener e x cb)"
      using below [of a y] by (auto simp add: next_addr_RegisterListener)
  qed
qed

lemma wf_notifyListeners:
  assumes "wf_registry e"
  shows "wf_registry (notifyListeners e x m)"
proof -
  have old: "distinct (elems (index_listeners e y))"
    and below: "\<And>a. a \<in> set (elems (index_listeners e y)) \<Longrightarrow> a < next_addr e" for y
    using assms by (simp_all add: wf_registry_def)
  show ?thesis
    unfolding wf_registry_def
  proof (intro allI conjI ballI)
    fix y
    show "distinct (elems (index_listeners (notifyListeners e x m) y))"
      using index_notifyListeners_cases [of e x m y] old [of y] by auto
  next
    fix y a
    assume "a \<in> set (elems (index_listeners (notifyListeners e x m) y))"
    then have "a \<in> set (elems (index_listeners e y))"
      using index_notifyListeners_cases [of e x m y] by auto
    then show "a < next_addr (notifyListeners e x m)"
      using below [of a y] by (simp add: next_addr_notifyListeners)
  qed
qed

lemma wf_log_Trace: "wf_registry (log_Trace e s) = wf_registry e"
  by (rule wf_registry_cong) (simp_all add: log_Trace_def)

lemma wf_log_Error: "wf_registry (log_Error e s) = wf_registry e"
  by (rule wf_registry_cong) (simp_all add: log_Error_def)

lemma wf_spawned_update: "wf_registry (e\<lparr>spawned := ts\<rparr>) = wf_registry e"
  by (rule wf_registry_cong) simp_all

lemma wf_on_eventMessage:
  "wf_registry e \<Longrightarrow> on_eventMessage e msg = Inr e' \<Longrightarrow> wf_registry e'"
  by (auto simp add: on_eventMessage_def Let_def wf_log_Trace wf_log_Error wf_spawned_update
        wf_RegisterListener split: if_splits payload.splits)

lemma wf_distinct:
  assumes "wf_registry e" and "index_listeners e x = Slice ls"
  shows "distinct ls"
proof -
  have "distinct (elems (index_listeners e x))"
    using assms(1) unfolding wf_registry_def by blast
  then show ?thesis
    using assms(2) by simp
qed

lemma wf_fresh:
  assumes "wf_registry e" and "index_listeners e x = Slice ls"
  shows "next_addr e \<notin> set ls"
proof
  assume "next_addr e \<in> set ls"
  then have "next_addr e \<in> set (elems (index_listeners e x))"
    using assms(2) by simp
  then have "next_addr e < next_addr e"
    using assms(1) unfolding wf_registry_def by blast
  then show False by simp
qed

section \<open>Listeners registered by RegisterListener\<close>

lemma zero_counter_removed:
  assumes "index_listeners e x = Slice ls" and "a \<in> set ls" and "counter (heap e a) = 0"
  shows "a \<notin> set (elems (index_listeners (notifyListeners e x m) x))"
proof -
  let ?e' = "notifyListeners e x m"
  let ?st' = "notify_loop ls (Data m) (heap e, spawned e, False)"
  have z: "counter (heap ?e' a) = 0"
    using notify_loop_zero_stays [of "(heap e, spawned e, False)" a ls "Data m"] assms(3)
    by (simp add: heap_notifyListeners [OF assms(1)])
  have d: "delete (heap ?e' a)"
    using notify_loop_zero_marked [of a ls "Data m" "(heap e, spawned e, False)"] assms(2) z
    by (simp add: heap_notifyListeners [OF assms(1)])
  have "snd (snd ?st')"
    using rebuilt_iff [OF assms(1), of m] assms(2) z by blast
  then have "listeners ?e' x = Some (cleanup (heap ?e') ls)"
    by (simp add: listeners_notifyListeners [OF assms(1)] heap_notifyListeners [OF assms(1)])
  with d show ?thesis
    by (simp add: index_listeners_def cleanup_def)
qed

lemma registered_listener_removed:
  "next_addr e \<notin> set (elems (index_listeners (notifyListeners (RegisterListener e x cb) x m) x))"
proof -
  have ix: "index_listeners (RegisterListener e x cb) x
              = Slice (elems (index_listeners e x) @ [next_addr e])"
    by (simp add: index_RegisterListener)
  show ?thesis
    by (rule zero_counter_removed [OF ix]) (simp_all add: heap_RegisterListener)
qed

lemma example_registered:
  "index_listeners (RegisterListener example_event ''x'' 7) ''x'' = Slice [0]"
  "heap (RegisterListener example_event ''x'' 7) 0 = \<lparr>callback = 7, counter = 0, delete = False\<rparr>"
  "spawned (RegisterListener example_event ''x'' 7) = []"
proof -
  have ix: "index_listeners example_event ''x'' = NilSlice"
    by (simp add: index_listeners_def example_event_def)
  have nx: "next_addr example_event = 0" and sp: "spawned example_event = []"
    by (simp_all add: example_event_def)
  show "index_listeners (RegisterListener example_event ''x'' 7) ''x'' = Slice [0]"
    by (simp add: index_RegisterListener ix nx)
  show "heap (RegisterListener example_event ''x'' 7) 0
          = \<lparr>callback = 7, counter = 0, delete = False\<rparr>"
    by (simp add: heap_RegisterListener nx)
  show "spawned (RegisterListener example_event ''x'' 7) = []"
    by (simp add: spawned_RegisterListener sp)
qed

lemma example_notified_once:
  "index_listeners (notifyListeners (RegisterListener example_event ''x'' 7) ''x'' example_message) ''x''
     = Slice []"
  "spawned (notifyListeners (RegisterListener example_event ''x'' 7) ''x'' example_message)
     = [CallbackTask 7 [IInt 1, IInt 2, IInt 3]]"
  by (simp_all add: index_listeners_def listeners_notifyListeners [OF example_registered(1)]
        spawned_notifyListeners [OF example_registered(1)] example_registered(2,3)
        example_message_def cleanup_def Let_def)

text \<open>
  Claim C1, evaluated on the code. \<open>RegisterListener\<close> stores the counter 0, which the
  comment on \<open>eventListener\<close> describes as a listener that does not expire. The loop of
  \<open>notifyListeners\<close> marks every record whose counter is zero after the optional
  decrement, so the first notification removes the listener: the sequence for \<open>x\<close> is
  empty after it, and a second notification launches nothing more. The lemma
  \<open>registered_listener_removed\<close> above shows the same for every state.
\<close>

theorem registered_listener_gone_after_first_notify:
  "counter (heap (RegisterListener example_event ''x'' 7) 0) = 0
   \<and> index_listeners (RegisterListener example_event ''x'' 7) ''x'' = Slice [0]
   \<and> index_listeners
        (notifyListeners (RegisterListener example_event ''x'' 7) ''x'' example_message) ''x''
       = Slice []
   \<and> spawned
        (notifyListeners
          (notifyListeners (RegisterListener example_event ''x'' 7) ''x'' example_message)
          ''x'' example_message)
       = [CallbackTask 7 [IInt 1, IInt 2, IInt 3]]"
  by (simp add: example_registered example_notified_once
        spawned_notifyListeners [OF example_notified_once(1)])

section \<open>The run loop on malformed messages\<close>

lemma Split_nonempty: "Split s sep \<noteq> []"
  by (induction s) (simp_all split: list.splits)

lemma Split_no_sep: "sep \<notin> set s \<Longrightarrow> Split s sep = [s]"
  by (induction s) auto

lemma on_eventMessage_panics_without_colon:
  "CHR '':'' \<notin> set (Topic eventMessage) \<Longrightarrow>
     on_eventMessage e eventMessage = Inl (IndexOutOfRange 1 1)"
  by (simp add: on_eventMessage_def Split_no_sep)

lemma on_eventMessage_Inl_iff:
  "isl (on_eventMessage e msg) \<longleftrightarrow>
     (let splitTopic = Split (Topic msg) CHR '':''
      in length splitTopic \<le> 1
         \<or> (splitTopic ! 1 = ''emit'' \<and> length splitTopic = 4
              \<and> (\<forall>ev. MsgData msg \<noteq> EventData ev))
         \<or> (splitTopic ! 1 = ''on'' \<and> (\<forall>on. MsgData msg \<noteq> OnData on)))"
  by (auto simp add: on_eventMessage_def Let_def split: payload.splits)

text \<open>
  Claim C2, evaluated on the code. \<open>splitTopic[1]\<close> is read before any length check,
  so a topic without a colon, which splits into one segment, panics with an index out of
  range; the goroutine of the loop ends there and the message behind it is not processed.
  The lemma \<open>on_eventMessage_Inl_iff\<close> above lists every message on which the loop body
  panics.
\<close>

theorem run_loop_panics_on_topic_without_colon:
  "on_eventMessage (Start example_event) \<lparr>Topic = ''event'', MsgData = EventData example_message\<rparr>
     = Inl (IndexOutOfRange 1 1)
   \<and> run_loop (Start example_event)
        [Inbound \<lparr>Topic = ''event'', MsgData = EventData example_message\<rparr>,
         Inbound \<lparr>Topic = ''event:emit:_:g'', MsgData = EventData example_message\<rparr>]
     = Inl (IndexOutOfRange 1 1)"
  by (simp add: on_eventMessage_def Start_def log_Trace_def)

section \<open>The lookup and the mutex\<close>

lemma register_steps_sequential:
  assumes "\<not> notifyLock e"
  shows "run_schedule [0, 0, 0] [RegisterThread x cb R_new] e
           = Some ([RegisterThread x cb R_return], RegisterListener e x cb)"
  using assms
  by (simp add: RegisterListener_def Let_def index_listeners_def)

lemma notify_steps_sequential:
  assumes "\<not> notifyLock e"
  shows "run_schedule (case index_listeners e x of NilSlice \<Rightarrow> [0] | Slice ls \<Rightarrow> [0, 0, 0])
           [NotifyThread x m N_lookup] e
           = Some ([NotifyThread x m N_return], notifyListeners e x m)"
  using assms
  by (cases "index_listeners e x") (simp_all add: notifyListeners_def notify_locked_def Let_def split: prod.splits)

lemma example_registered_full:
  "RegisterListener example_event ''x'' 7 =
     example_event\<lparr>listeners := [''x'' \<mapsto> Slice [0]],
       heap := empty_heap(0 := \<lparr>callback = 7, counter = 0, delete = False\<rparr>),
       next_addr := 1\<rparr>"
  by (simp add: RegisterListener_def Let_def index_listeners_def example_event_def)

text \<open>
  Claim C3, evaluated on the code. The lookup \<open>e.listeners[eventName]\<close> of line 142
  comes before \<open>Lock\<close> in line 149: the step is enabled while another goroutine holds
  the mutex. With a registration between that lookup and the \<open>Lock\<close>, the cleanup
  stores the filtered old snapshot over the sequence that holds the new record: callback
  8 is neither registered nor launched afterwards, while in both orders of the two calls
  run one after the other it is registered or launched.
\<close>

theorem lookup_outside_lock_loses_registration:
  "notify_step ''x'' example_message N_lookup
       ((RegisterListener example_event ''x'' 7)\<lparr>notifyLock := True\<rparr>)
     = Some (N_lock [0], (RegisterListener example_event ''x'' 7)\<lparr>notifyLock := True\<rparr>)
   \<and> map_option (\<lambda>(ts, e). (ts, index_listeners e ''x'', spawned e, callback (heap e 1), notifyLock e))
       (run_schedule [0, 1, 1, 1, 0, 0]
          [NotifyThread ''x'' example_message N_lookup, RegisterThread ''x'' 8 R_new]
          (RegisterListener example_event ''x'' 7))
     = Some ([NotifyThread ''x'' example_message N_return, RegisterThread ''x'' 8 R_return],
             Slice [], [CallbackTask 7 [IInt 1, IInt 2, IInt 3]], 8, False)
   \<and> index_listeners
        (RegisterListener
          (notifyListeners (RegisterListener example_event ''x'' 7) ''x'' example_message) ''x'' 8)
        ''x'' = Slice [1]
   \<and> spawned
        (notifyListeners
          (RegisterListener (RegisterListener example_event ''x'' 7) ''x'' 8) ''x'' example_message)
       = [CallbackTask 7 [IInt 1, IInt 2, IInt 3], CallbackTask 8 [IInt 1, IInt 2, IInt 3]]"
  by (simp add: example_registered_full example_event_def example_message_def
        index_listeners_def notify_locked_def cleanup_def Let_def
        RegisterListener_def notifyListeners_def)

section \<open>Dispatch of emit messages\<close>

text \<open>
  Claim C7. For a message whose topic has exactly the four segments
  \<open>domain:emit:reserved:source\<close> and whose data is an event message, the loop body
  returns normally, and it launches a notification task for the event's name exactly
  when the source is \<open>j\<close> or \<open>g\<close>. For any other source it launches nothing and logs
  the error for an unknown emit message. The registry is not changed either way.
\<close>

theorem emit_dispatched_iff_source_j_or_g:
  assumes "Split (Topic msg) CHR '':'' = [domain, ''emit'', reserved, source]"
      and "MsgData msg = EventData event"
  shows "\<exists>e'. on_eventMessage e msg = Inr e'
     \<and> (spawned e' = spawned e @ [NotifyTask (Name event) event]
          \<longleftrightarrow> source = ''j'' \<or> source = ''g'')
     \<and> (source \<noteq> ''j'' \<and> source \<noteq> ''g'' \<longrightarrow>
          spawned e' = spawned e
          \<and> logger e' = logger e @ [LogTrace ''Got Event Message: %s %+v'',
                                   LogError ''unknown emit event message: %+v''])
     \<and> listeners e' = listeners e \<and> heap e' = heap e"
  using assms
  by (simp add: on_eventMessage_def Let_def log_Trace_def log_Error_def)

theorem emit_dispatched_iff_source_j_or_g_witness:
  "Split (Topic \<lparr>Topic = ''event:emit:_:g'', MsgData = EventData example_message\<rparr>) CHR '':''
     = [''event'', ''emit'', ''_'', ''g'']
   \<and> MsgData \<lparr>Topic = ''event:emit:_:g'', MsgData = EventData example_message\<rparr>
     = EventData example_message
   \<and> (\<exists>e'. on_eventMessage example_event
               \<lparr>Topic = ''event:emit:_:g'', MsgData = EventData example_message\<rparr> = Inr e'
          \<and> spawned e' = [NotifyTask ''x'' example_message])"
proof -
  let ?msg = "\<lparr>Topic = ''event:emit:_:g'', MsgData = EventData example_message\<rparr>"
  have sp: "Split (Topic ?msg) CHR '':'' = [''event'', ''emit'', ''_'', ''g'']"
    by simp
  have da: "MsgData ?msg = EventData example_message"
    by simp
  have nm: "Name example_message = ''x''" and se: "spawned example_event = []"
    by (simp_all add: example_message_def example_event_def)
  show ?thesis
    using emit_dispatched_iff_source_j_or_g [OF sp da, of example_event] sp nm se
    by auto
qed

section \<open>Construction\<close>

text \<open>
  Claim C8. \<open>NewEvent\<close> returns an error, and no \<open>Event\<close>, exactly when the
  subscription to \<open>quit\<close> fails or, after it succeeded, the subscription to \<open>event\<close>
  fails; the error is the one of the failed subscription. On success the \<open>Event\<close> has an
  empty listeners map, holds the two channels that the subscriptions returned, and the
  bus has seen both subscriptions.
\<close>

theorem NewEvent_fails_iff_subscription_fails:
  "(isl (fst (NewEvent Subscribe bus)) \<longleftrightarrow>
      isl (fst (Subscribe bus ''quit''))
      \<or> isl (fst (Subscribe (snd (Subscribe bus ''quit'')) ''event'')))
   \<and> (\<forall>err. fst (NewEvent Subscribe bus) = Inl err \<longrightarrow>
         fst (Subscribe bus ''quit'') = Inl err
         \<or> fst (Subscribe (snd (Subscribe bus ''quit'')) ''event'') = Inl err)
   \<and> (\<forall>e. fst (NewEvent Subscribe bus) = Inr e \<longrightarrow>
         listeners e = Map.empty
         \<and> fst (Subscribe bus ''quit'') = Inr (quitChannel e)
         \<and> fst (Subscribe (snd (Subscribe bus ''quit'')) ''event'') = Inr (eventChannel e)
         \<and> snd (NewEvent Subscribe bus) = snd (Subscribe (snd (Subscribe bus ''quit'')) ''event'')
         \<and> \<not> running e \<and> \<not> notifyLock e \<and> spawned e = [])"
  by (auto simp add: NewEvent_def split: prod.splits sum.splits)

theorem NewEvent_fails_iff_subscription_fails_witness:
  "NewEvent example_bus 0 = (Inr example_event, 2)
   \<and> listeners example_event = Map.empty
   \<and> example_bus 0 ''quit'' = (Inr (quitChannel example_event), 1)
   \<and> example_bus 1 ''event'' = (Inr (eventChannel example_event), 2)
   \<and> fst (NewEvent failing_bus 0) = Inl ''subscribe failed''
   \<and> fst (failing_bus (snd (failing_bus 0 ''quit'')) ''event'') = Inl ''subscribe failed''"
proof -
  have ok: "NewEvent example_bus 0 = (Inr example_event, 2)"
    by (simp add: NewEvent_def example_bus_def example_event_def)
  have bad: "fst (NewEvent failing_bus 0) = Inl ''subscribe failed''"
    by (simp add: NewEvent_def failing_bus_def)
  show ?thesis
    using NewEvent_fails_iff_subscription_fails [of example_bus 0]
      NewEvent_fails_iff_subscription_fails [of failing_bus 0] ok bad
    by (simp add: example_bus_def failing_bus_def example_event_def)
qed

section \<open>The dependency list is sorted\<close>

lemma scan_packages_DepName:
  "scan_packages p v name pkgs d = Inr d' \<Longrightarrow> DepName d' = DepName d"
  by (induction pkgs arbitrary: d) (auto simp add: Let_def split: sum.splits if_splits)

lemma scan_all_names:
  "scan_all p v entries deps = Inr ds \<Longrightarrow>
     map DepName ds = map DepName deps @ map fst entries"
proof (induction entries arbitrary: deps)
  case Nil
  then show ?case by simp
next
  case (Cons entry rest)
  obtain name packages where entry: "entry = (name, packages)"
    by (cases entry)
  from Cons.prems obtain d where
    d: "scan_packages p v name packages
          \<lparr>DepName = name, PackageName = [], Installed = False, DepInstallCommand = [],
           DepVersion = [], DepOptional = False, External = False\<rparr> = Inr d"
    and rest: "scan_all p v rest (deps @ [d]) = Inr ds"
    by (auto simp add: entry split: sum.splits)
  have "DepName d = name"
    using scan_packages_DepName [OF d] by simp
  with Cons.IH [OF rest] show ?case
    by (simp add: entry)
qed

lemma mset_insert_less: "mset (insert_less lessf x xs) = add_mset x (mset xs)"
  by (induction xs) simp_all

lemma mset_sort_Slice: "mset (sort_Slice lessf xs) = mset xs"
  by (induction xs) (simp_all add: mset_insert_less)

lemma set_insert_less: "set (insert_less lessf x xs) = insert x (set xs)"
  by (induction xs) auto

lemma sorted_insert_less:
  fixes f :: "'a \<Rightarrow> 'b::linorder"
  shows "sorted (map f xs) \<Longrightarrow> sorted (map f (insert_less (\<lambda>a b. f a < f b) x xs))"
  by (induction xs) (auto simp add: set_insert_less)

lemma sorted_sort_Slice:
  fixes f :: "'a \<Rightarrow> 'b::linorder"
  shows "sorted (map f (sort_Slice (\<lambda>a b. f a < f b) xs))"
  by (induction xs) (simp_all add: sorted_insert_less)

text \<open>
  Claim C9. When \<open>Dependancies\<close> returns without error, the names of the returned list
  are in ascending order. The names are those of the package map, each as often as the
  map holds it, so for a map (whose keys are distinct) the order is strictly ascending.
\<close>

theorem Dependancies_sorted_by_name:
  assumes "Dependancies p v = Inr ds"
  shows "sorted (map DepName ds)
       \<and> mset (map DepName ds) = mset (map fst (Packages p))
       \<and> (distinct (map fst (Packages p)) \<longrightarrow> sorted_wrt (<) (map DepName ds))"
proof -
  from assms obtain deps where
    scan: "scan_all p v (Packages p) [] = Inr deps"
    and ds: "ds = sort_Slice (\<lambda>a b. DepName a < DepName b) deps"
    by (auto simp add: Dependancies_def split: sum.splits)
  have srt: "sorted (map DepName ds)"
    unfolding ds by (rule sorted_sort_Slice)
  have "mset ds = mset deps"
    unfolding ds by (rule mset_sort_Slice)
  then have "mset (map DepName ds) = mset (map DepName deps)"
    by (metis mset_map)
  also have "map DepName deps = map fst (Packages p)"
    using scan_all_names [OF scan] by simp
  finally have perm: "mset (map DepName ds) = mset (map fst (Packages p))" .
  have "distinct (map DepName ds)" if "distinct (map fst (Packages p))"
    using perm that by (metis mset_eq_imp_distinct_iff)
  with srt have "sorted_wrt (<) (map DepName ds)" if "distinct (map fst (Packages p))"
    using that by (simp add: strict_sorted_iff)
  with srt perm show ?thesis by blast
qed

theorem Dependancies_sorted_by_name_witness:
  "\<exists>ds. Dependancies example_manager example_versions = Inr ds
      \<and> map DepName ds = [''docker'', ''gcc'', ''npm'']
      \<and> distinct (map fst (Packages example_manager))
      \<and> sorted (map DepName ds)
      \<and> sorted_wrt (<) (map DepName ds)"
proof -
  have "\<exists>ds. Dependancies example_manager example_versions = Inr ds
          \<and> map DepName ds = [''docker'', ''gcc'', ''npm'']"
    by (simp add: Dependancies_def example_manager_def Let_def example_versions_def
          AppVersion_def)
  then obtain ds where ds: "Dependancies example_manager example_versions = Inr ds"
    and names: "map DepName ds = [''docker'', ''gcc'', ''npm'']"
    by auto
  have keys: "distinct (map fst (Packages example_manager))"
    by (simp add: example_manager_def)
  show ?thesis
    using Dependancies_sorted_by_name [OF ds] ds names keys by auto
qed

end
